theory Spec2Isabelle
  imports Main
begin

text \<open>
  The wikitext extractors of \<open>wikidump/extractors/misc.py\<close>: the section class and
  its memoised \<open>full_body\<close>, the section segmenter \<open>sections\<close>, and the wikilink
  extractor \<open>wikilinks\<close> with its window, its resolution of a grammar match, its
  policy for a grammar mismatch and its attribution of a link to a section.
\<close>

section \<open>Python strings\<close>

text \<open>
  A Python \<open>str\<close> is modelled as a \<open>string\<close> (a list of characters) and every offset
  as an \<open>int\<close>, since the code computes offsets such as \<open>start - 1\<close> that can be
  negative.  A \<open>char\<close> has eight bits and stands for the code point of that number,
  U+0000 to U+00FF; code points above that range are not modelled.

  The source has two notions of white space.  The class \<open>\s\<close> of the \<open>regex\<close> module
  is the Unicode property \<open>White_Space\<close>: in this range tab, line feed, vertical tab,
  form feed, carriage return, space, U+0085 and U+00A0.  \<open>str.strip()\<close> and
  \<open>str.split()\<close> use \<open>str.isspace\<close>, which holds of these and of the four separators
  U+001C to U+001F as well.
\<close>

definition re_space :: "char \<Rightarrow> bool" where
  "re_space c \<longleftrightarrow>
     c = CHR 0x09 \<or> c = CHR 0x0A \<or> c = CHR 0x0B \<or> c = CHR 0x0C \<or> c = CHR 0x0D \<or>
     c = CHR 0x20 \<or> c = CHR 0x85 \<or> c = CHR 0xA0"

definition py_space :: "char \<Rightarrow> bool" where
  "py_space c \<longleftrightarrow>
     re_space c \<or> c = CHR 0x1C \<or> c = CHR 0x1D \<or> c = CHR 0x1E \<or> c = CHR 0x1F"

text \<open>\<open>len(s)\<close> as an offset.\<close>

definition len :: "string \<Rightarrow> int" where
  "len s = int (length s)"

text \<open>
  The slice \<open>s[a:b]\<close>: a negative bound counts from the end, and both bounds are
  clamped to \<open>[0, len(s)]\<close>; an empty or inverted range gives the empty string.
\<close>

definition slice_bound :: "string \<Rightarrow> int \<Rightarrow> nat" where
  "slice_bound s i = (if i < 0 then nat (max 0 (len s + i)) else nat (min i (len s)))"

definition py_slice :: "string \<Rightarrow> int \<Rightarrow> int \<Rightarrow> string" where
  "py_slice s a b = take (slice_bound s b - slice_bound s a) (drop (slice_bound s a) s)"

text \<open>\<open>s.lstrip(cs)\<close>, \<open>s.rstrip(cs)\<close> and \<open>s.strip(cs)\<close> for a character predicate.\<close>

definition lstrip :: "(char \<Rightarrow> bool) \<Rightarrow> string \<Rightarrow> string" where
  "lstrip p s = dropWhile p s"

definition rstrip :: "(char \<Rightarrow> bool) \<Rightarrow> string \<Rightarrow> string" where
  "rstrip p s = rev (dropWhile p (rev s))"

definition strip :: "(char \<Rightarrow> bool) \<Rightarrow> string \<Rightarrow> string" where
  "strip p s = rstrip p (lstrip p s)"

text \<open>\<open>s.find(c)\<close> for a single character: the first index, or \<open>-1\<close>.\<close>

fun find_char :: "char \<Rightarrow> string \<Rightarrow> int" where
  "find_char c [] = -1"
| "find_char c (x # xs) =
     (if x = c then 0 else (let r = find_char c xs in if r = -1 then -1 else r + 1))"

text \<open>
  \<open>s.split(c, 1)\<close> for a string that contains \<open>c\<close>: the text before the first
  \<open>c\<close> and the text after it.
\<close>

definition split_once :: "char \<Rightarrow> string \<Rightarrow> string \<times> string" where
  "split_once c s = (takeWhile (\<lambda>x. x \<noteq> c) s, drop 1 (dropWhile (\<lambda>x. x \<noteq> c) s))"

text \<open>\<open>s.split()\<close>: the maximal runs of non-whitespace characters, in order.\<close>

fun split_ws :: "string \<Rightarrow> string \<Rightarrow> string list" where
  "split_ws cur [] = (if cur = [] then [] else [cur])"
| "split_ws cur (c # cs) =
     (if py_space c then (if cur = [] then split_ws [] cs else cur # split_ws [] cs)
      else split_ws (cur @ [c]) cs)"

text \<open>\<open>sep.join(ws)\<close> for a one-character separator.\<close>

fun join :: "char \<Rightarrow> string list \<Rightarrow> string" where
  "join sep [] = []"
| "join sep [w] = w"
| "join sep (w # ws) = w @ sep # join sep ws"

text \<open>\<open>s.replace(a, b)\<close> for single characters.\<close>

definition replace_char :: "char \<Rightarrow> char \<Rightarrow> string \<Rightarrow> string" where
  "replace_char a b s = map (\<lambda>c. if c = a then b else c) s"

section \<open>Regular expressions\<close>

text \<open>
  The patterns of the source are compiled by the \<open>regex\<close> module, a backtracking
  matcher.  It is modelled for the constructs the patterns use: a character class, a
  sequence, a counted repetition of a character class (greedy or lazy), a greedy
  optional part, a named group, a back-reference to a named group, and the
  line anchors of \<open>MULTILINE\<close> mode.  A match state is the current offset and the
  groups captured so far; matching returns every state the pattern can end in, in the
  order in which backtracking tries them, so the head of the list is the match.
\<close>

type_synonym groups = "(string \<times> nat \<times> nat) list"

type_synonym mstate = "nat \<times> groups"

datatype re =
    Eps
  | Chr "char \<Rightarrow> bool"
  | Seq re re
  | Rep nat "nat option" bool "char \<Rightarrow> bool"
  | Opt re
  | Grp string re
  | Backref string
  | Bol
  | Eol

text \<open>
  \<open>Rep mn mx greedy p\<close> is \<open>[p]{mn,mx}\<close> (no upper bound for \<open>None\<close>): the run of
  characters of the class that starts at offset \<open>i\<close> has some length, the
  repetition can take any count from \<open>mn\<close> up to the run (and up to \<open>mx\<close>), and it
  tries the largest count first when greedy and the smallest first when lazy.
\<close>

definition rep_counts :: "nat \<Rightarrow> nat option \<Rightarrow> bool \<Rightarrow> nat \<Rightarrow> nat list" where
  "rep_counts mn mx greedy run =
     (let hi = (case mx of None \<Rightarrow> run | Some m \<Rightarrow> min m run);
          ks = [mn..<Suc hi]
      in if greedy then rev ks else ks)"

primrec ms :: "re \<Rightarrow> string \<Rightarrow> mstate \<Rightarrow> mstate list" where
  "ms Eps s = (\<lambda>st. [st])"
| "ms (Chr p) s = (\<lambda>(i, g). if i < length s \<and> p (s ! i) then [(Suc i, g)] else [])"
| "ms (Seq a b) s = (\<lambda>st. concat (map (ms b s) (ms a s st)))"
| "ms (Rep mn mx greedy p) s =
     (\<lambda>(i, g). map (\<lambda>k. (i + k, g))
                  (rep_counts mn mx greedy (length (takeWhile p (drop i s)))))"
| "ms (Opt r) s = (\<lambda>st. ms r s st @ [st])"
| "ms (Grp n r) s = (\<lambda>(i, g). map (\<lambda>(j, g'). (j, (n, i, j) # g')) (ms r s (i, g)))"
| "ms (Backref n) s =
     (\<lambda>(i, g). case map_of g n of
                  None \<Rightarrow> []
                | Some (a, b) \<Rightarrow>
                    if take (b - a) (drop i s) = take (b - a) (drop a s) \<and> i + (b - a) \<le> length s
                    then [(i + (b - a), g)] else [])"
| "ms Bol s = (\<lambda>(i, g). if i = 0 \<or> s ! (i - 1) = CHR 0x0A then [(i, g)] else [])"
| "ms Eol s = (\<lambda>(i, g). if length s \<le> i \<or> s ! i = CHR 0x0A then [(i, g)] else [])"

text \<open>A pattern written as the sequence of its parts, and a literal character.\<close>

definition seqs :: "re list \<Rightarrow> re" where
  "seqs rs = foldr Seq rs Eps"

definition lit :: "char \<Rightarrow> re" where
  "lit c = Chr (\<lambda>x. x = c)"

text \<open>
  A match object: the subject string, the offsets of the whole match and the spans of
  the groups that took part.  \<open>group\<close> is \<open>m.group(name)\<close> (\<open>None\<close> for a group that
  did not take part), \<open>group_start\<close> and \<open>group_end\<close> are \<open>m.start(name)\<close> and
  \<open>m.end(name)\<close> (\<open>-1\<close> for such a group).
\<close>

record rematch =
  m_string :: string
  m_start :: nat
  m_end :: nat
  m_groups :: groups

definition group :: "rematch \<Rightarrow> string \<Rightarrow> string option" where
  "group m n =
     (case map_of (m_groups m) n of
        None \<Rightarrow> None
      | Some (a, b) \<Rightarrow> Some (take (b - a) (drop a (m_string m))))"

definition group_start :: "rematch \<Rightarrow> string \<Rightarrow> int" where
  "group_start m n = (case map_of (m_groups m) n of None \<Rightarrow> -1 | Some (a, b) \<Rightarrow> int a)"

definition group_end :: "rematch \<Rightarrow> string \<Rightarrow> int" where
  "group_end m n = (case map_of (m_groups m) n of None \<Rightarrow> -1 | Some (a, b) \<Rightarrow> int b)"

text \<open>The match of a pattern that starts exactly at offset \<open>i\<close>, if there is one.\<close>

definition match_at :: "re \<Rightarrow> string \<Rightarrow> nat \<Rightarrow> rematch option" where
  "match_at r s i =
     (case ms r s (i, []) of
        [] \<Rightarrow> None
      | (j, g) # _ \<Rightarrow> Some \<lparr>m_string = s, m_start = i, m_end = j, m_groups = g\<rparr>)"

text \<open>\<open>pattern.search(s)\<close>: the match at the leftmost offset that has one.\<close>

fun first_match :: "re \<Rightarrow> string \<Rightarrow> nat list \<Rightarrow> rematch option" where
  "first_match r s [] = None"
| "first_match r s (i # is) =
     (case match_at r s i of Some m \<Rightarrow> Some m | None \<Rightarrow> first_match r s is)"

definition re_search :: "re \<Rightarrow> string \<Rightarrow> rematch option" where
  "re_search r s = first_match r s [0..<Suc (length s)]"

text \<open>
  \<open>pattern.finditer(s)\<close>: the successive non-overlapping matches, each search
  resuming where the previous match ended.  After an empty match the scan moves one
  character on; no pattern of this file matches the empty string.
\<close>

function finditer_from :: "re \<Rightarrow> string \<Rightarrow> nat \<Rightarrow> rematch list" where
  "finditer_from r s i =
     (if length s < i then []
      else (case match_at r s i of
              None \<Rightarrow> finditer_from r s (Suc i)
            | Some m \<Rightarrow> m # finditer_from r s (if i < m_end m then m_end m else Suc i)))"
  by pat_completeness auto
termination
  by (relation "measure (\<lambda>(r, s, i). Suc (length s) - i)") auto

declare finditer_from.simps [simp del]

definition finditer :: "re \<Rightarrow> string \<Rightarrow> rematch list" where
  "finditer r s = finditer_from r s 0"

text \<open>
  \<open>space_rtl_re.search(s)\<close>, the reverse search \<open>(?r)\s\<close>: the offset of the last
  whitespace character of \<open>s\<close>.  \<open>space_re.search(s)\<close>: the offset of the first.
\<close>

fun last_index :: "(char \<Rightarrow> bool) \<Rightarrow> string \<Rightarrow> nat option" where
  "last_index p [] = None"
| "last_index p (x # xs) =
     (case last_index p xs of
        Some j \<Rightarrow> Some (Suc j)
      | None \<Rightarrow> if p x then Some 0 else None)"

fun first_index :: "(char \<Rightarrow> bool) \<Rightarrow> string \<Rightarrow> nat option" where
  "first_index p [] = None"
| "first_index p (x # xs) =
     (if p x then Some 0 else map_option Suc (first_index p xs))"

subsection \<open>The patterns of the source\<close>

text \<open>
  \<open>section_header_re\<close>, in \<open>VERBOSE | MULTILINE\<close> mode:
  \<^verbatim>\<open>^(?P<equals>=+)(?P<section_name>.+?)(?P=equals)\s*$\<close>
\<close>

definition section_header_re :: re where
  "section_header_re =
     seqs [Bol,
           Grp ''equals'' (Rep 1 None True (\<lambda>c. c = CHR ''='')),
           Grp ''section_name'' (Rep 1 None False (\<lambda>c. c \<noteq> CHR 0x0A)),
           Backref ''equals'',
           Rep 0 None True re_space,
           Eol]"

text \<open>
  \<open>wikilink_simple_re\<close>, in \<open>VERBOSE | MULTILINE\<close> mode:
  \<^verbatim>\<open>\[\[[^\n\]\[]+?\]\]\<close>
\<close>

definition wikilink_simple_re :: re where
  "wikilink_simple_re =
     seqs [lit CHR ''['', lit CHR ''['',
           Rep 1 None False (\<lambda>c. c \<noteq> CHR 0x0A \<and> c \<noteq> CHR '']'' \<and> c \<noteq> CHR ''[''),
           lit CHR '']'', lit CHR '']'']"

text \<open>
  \<open>wikilink_re\<close>, in \<open>VERBOSE | MULTILINE\<close> mode (the class of the link group is
  written here without the escapes that the source puts before its members):
  \<^verbatim>\<open>\s?(?P<total>\S*?(?P<wikilink>\[\[(?P<link>[^\n|\]\[<>{}]{0,256})(?:\|(?P<anchor>[^\[]*?))?\]\])\S*)\s?\<close>
\<close>

definition link_char :: "char \<Rightarrow> bool" where
  "link_char c \<longleftrightarrow>
     c \<noteq> CHR 0x0A \<and> c \<noteq> CHR ''|'' \<and> c \<noteq> CHR '']'' \<and> c \<noteq> CHR ''['' \<and>
     c \<noteq> CHR ''<'' \<and> c \<noteq> CHR ''>'' \<and> c \<noteq> CHR ''{'' \<and> c \<noteq> CHR ''}''"

definition wikilink_re :: re where
  "wikilink_re =
     seqs [Rep 0 (Some 1) True re_space,
           Grp ''total''
             (seqs [Rep 0 None False (\<lambda>c. \<not> re_space c),
                    Grp ''wikilink''
                      (seqs [lit CHR ''['', lit CHR ''['',
                             Grp ''link'' (Rep 0 (Some 256) True link_char),
                             Opt (seqs [lit CHR ''|'',
                                        Grp ''anchor'' (Rep 0 None False (\<lambda>c. c \<noteq> CHR ''[''))]),
                             lit CHR '']'', lit CHR '']'']),
                    Rep 0 None True (\<lambda>c. \<not> re_space c)]),
           Rep 0 (Some 1) True re_space]"

section \<open>Spans, capture results and sections\<close>

record Span =
  span_begin :: int
  span_end :: int

record 'a CaptureResult =
  data :: 'a
  span :: Span

text \<open>
  \<open>class Section\<close>: the three constructor arguments and the cache \<open>_full_body\<close>,
  which \<open>__init__\<close> sets to \<open>None\<close>.
\<close>

record Section =
  name :: string
  level :: int
  body :: string
  full_body_cache :: "string option"

definition Section_init :: "string \<Rightarrow> int \<Rightarrow> string \<Rightarrow> Section" where
  "Section_init n l b = \<lparr>name = n, level = l, body = b, full_body_cache = None\<rparr>"

definition is_preamble :: "Section \<Rightarrow> bool" where
  "is_preamble s \<longleftrightarrow> level s = 0"

text \<open>
  The property \<open>full_body\<close> reads and writes the cache, so it returns the string
  together with the section as it is after the access.  \<open>range(level)\<close> is empty for
  a negative level.
\<close>

definition full_body :: "Section \<Rightarrow> string \<times> Section" where
  "full_body s =
     (case full_body_cache s of
        Some fb \<Rightarrow> (fb, s)
      | None \<Rightarrow>
          (let fb = (if is_preamble s then body s
                     else (let equals = replicate (nat (level s)) CHR ''=''
                           in equals @ name s @ equals @ [CHR 0x0A] @ body s))
           in (fb, s\<lparr>full_body_cache := Some fb\<rparr>)))"

section \<open>The section segmenter\<close>

text \<open>
  \<open>m.group(name)\<close> for a group that takes part in every match of its pattern (the
  empty string stands for \<open>None\<close>), and \<open>m.group(0)\<close>, the matched text.
\<close>

definition group_text :: "rematch \<Rightarrow> string \<Rightarrow> string" where
  "group_text m n = (case group m n of None \<Rightarrow> [] | Some t \<Rightarrow> t)"

definition group0 :: "rematch \<Rightarrow> string" where
  "group0 m = take (m_end m - m_start m) (drop (m_start m) (m_string m))"

text \<open>
  The one-token lookahead of \<open>sections\<close>: \<open>peek().start() - 1\<close> when a header
  follows, \<open>len(source)\<close> when \<open>peek\<close> raises \<open>StopIteration\<close>.
\<close>

definition peek_body_end :: "string \<Rightarrow> rematch list \<Rightarrow> int" where
  "peek_body_end source rest =
     (case rest of [] \<Rightarrow> len source | m # _ \<Rightarrow> int (m_start m) - 1)"

text \<open>The \<open>for\<close> loop of \<open>sections\<close> over the header matches not yet consumed.\<close>

fun sections_loop :: "string \<Rightarrow> rematch list \<Rightarrow> Section CaptureResult list" where
  "sections_loop source [] = []"
| "sections_loop source (m # rest) =
     (let name = group_text m ''section_name'';
          level = len (group_text m ''equals'');
          body_begin = int (m_end m) + 1;
          body_end = peek_body_end source rest;
          section = Section_init name level (py_slice source body_begin body_end)
      in \<lparr>data = section, span = \<lparr>span_begin = int (m_start m), span_end = body_end\<rparr>\<rparr>
         # sections_loop source rest)"

text \<open>\<open>sections(source, include_preamble)\<close>, the results in the order they are yielded.\<close>

definition sections :: "string \<Rightarrow> bool \<Rightarrow> Section CaptureResult list" where
  "sections source include_preamble =
     (let section_header_matches = finditer section_header_re source;
          preamble =
            (if include_preamble
             then (let body_end = peek_body_end source section_header_matches
                   in [\<lparr>data = Section_init [] 0 (py_slice source 0 body_end),
                        span = \<lparr>span_begin = 0, span_end = body_end\<rparr>\<rparr>])
             else [])
      in preamble @ sections_loop source section_header_matches)"

text \<open>The start of the first header of a document, if it has one.\<close>

definition first_header_start :: "string \<Rightarrow> nat option" where
  "first_header_start source =
     (case finditer section_header_re source of [] \<Rightarrow> None | m # _ \<Rightarrow> Some (m_start m))"

text \<open>
  Spans that partition \<open>[a, b)\<close>: the first begins at \<open>a\<close>, each next one begins where
  the one before it ends, none is inverted, and the last ends at \<open>b\<close>.
\<close>

fun partitions :: "Span list \<Rightarrow> int \<Rightarrow> int \<Rightarrow> bool" where
  "partitions [] a b \<longleftrightarrow> a = b"
| "partitions (sp # sps) a b \<longleftrightarrow>
     span_begin sp = a \<and> a \<le> span_end sp \<and> partitions sps (span_end sp) b"

text \<open>
  Spans that cover \<open>[a, b)\<close> except for one line feed between each two neighbours:
  the first begins at \<open>a\<close>, none is inverted, each one but the last ends on a line
  feed of the source and the next one begins just after it, and the last ends at \<open>b\<close>.
\<close>

fun line_separated :: "string \<Rightarrow> Span list \<Rightarrow> int \<Rightarrow> int \<Rightarrow> bool" where
  "line_separated source [] a b \<longleftrightarrow> False"
| "line_separated source [sp] a b \<longleftrightarrow>
     span_begin sp = a \<and> a \<le> span_end sp \<and> span_end sp = b"
| "line_separated source (sp # sp' # sps) a b \<longleftrightarrow>
     span_begin sp = a \<and> a \<le> span_end sp \<and> span_end sp < len source \<and>
     source ! nat (span_end sp) = CHR 0x0A \<and>
     line_separated source (sp' # sps) (span_end sp + 1) b"

section \<open>The wikilink extractor\<close>

record Wikilink =
  link :: string
  tosection :: string
  anchor :: string
  section_name :: string
  section_level :: int
  section_number :: nat

record SectionLimits =
  sl_name :: string
  sl_level :: int
  sl_number :: nat
  sl_begin :: int
  sl_end :: int

datatype error = UnboundLocalError | ZeroDivisionError

text \<open>
  What one call of the generator lets its consumer observe: a result it yields, or the
  interactive debugger it enters at \<open>ipdb.set_trace()\<close>.
\<close>

datatype event = Yielded "Wikilink CaptureResult" | Debugger

text \<open>
  \<open>reverse_position(revpos, strlen)\<close>; Python's \<open>%\<close> takes the sign of the divisor, as
  \<open>mod\<close> on \<open>int\<close> does, and raises for a zero divisor.
\<close>

definition reverse_position :: "int \<Rightarrow> int \<Rightarrow> error + int" where
  "reverse_position revpos strlen =
     (if revpos = -1 then Inr (-1)
      else if strlen = 0 then Inl ZeroDivisionError
      else Inr ((- (revpos + 1)) mod strlen))"

text \<open>
  \<open>sections_limits\<close>: the sections numbered from 1 by \<open>enumerate(sections, 1)\<close>.
\<close>

definition sections_limits_of :: "Section CaptureResult list \<Rightarrow> SectionLimits list" where
  "sections_limits_of secs =
     map (\<lambda>(idx, c). \<lparr>sl_name = name (data c), sl_level = level (data c), sl_number = idx,
                       sl_begin = span_begin (span c), sl_end = span_end (span c)\<rparr>)
         (zip [1..<Suc (length secs)] secs)"

text \<open>
  A local variable of the generator is either bound to a value or unbound; reading or
  deleting an unbound local raises \<open>UnboundLocalError\<close>.
\<close>

definition read_local :: "'a option \<Rightarrow> error + 'a" where
  "read_local v = (case v of None \<Rightarrow> Inl UnboundLocalError | Some x \<Rightarrow> Inr x)"

definition del_local :: "'a option \<Rightarrow> error + unit" where
  "del_local v = (case v of None \<Rightarrow> Inl UnboundLocalError | Some x \<Rightarrow> Inr ())"

text \<open>
  The left boundary of the window (from the reverse whitespace search to
  \<open>del revtext\<close>).  \<open>revtext\<close> is the binding of the local of that name when the
  iteration starts.
\<close>

definition left_boundary :: "string \<Rightarrow> int \<Rightarrow> rematch \<Rightarrow> string option \<Rightarrow> error + int" where
  "left_boundary source prevmatch_start simple_match revtext =
     (case last_index re_space (py_slice source prevmatch_start (int (m_start simple_match))) of
        Some spacepos \<Rightarrow>
          (case read_local revtext of
             Inl e \<Rightarrow> Inl e
           | Inr rt \<Rightarrow>
               (case reverse_position (int spacepos) (len rt) of
                  Inl e \<Rightarrow> Inl e
                | Inr space_prev_match_pos \<Rightarrow>
                    (let space_prev_pos = prevmatch_start + int spacepos
                     in case del_local revtext of
                          Inl e \<Rightarrow> Inl e
                        | Inr _ \<Rightarrow> Inr space_prev_pos)))
      | None \<Rightarrow>
          (let space_prev_pos = int (m_start simple_match)
           in case del_local revtext of
                Inl e \<Rightarrow> Inl e
              | Inr _ \<Rightarrow> Inr space_prev_pos))"

text \<open>The right boundary of the window.\<close>

definition right_boundary :: "string \<Rightarrow> rematch \<Rightarrow> int" where
  "right_boundary source simple_match =
     (case first_index re_space (py_slice source (int (m_end simple_match)) (len source)) of
        Some k \<Rightarrow> int (m_end simple_match) + int k
      | None \<Rightarrow> int (m_end simple_match))"

text \<open>
  The branch taken when the full grammar does not match the window.  \<open>str.find\<close>
  returns an index or \<open>-1\<close>, and the condition takes each result as a truth value:
  true unless it is \<open>0\<close>.
\<close>

definition simple_match_text :: "rematch \<Rightarrow> string" where
  "simple_match_text simple_match =
     rstrip (\<lambda>c. c = CHR '']'') (lstrip (\<lambda>c. c = CHR ''['') (strip py_space (group0 simple_match)))"

definition mismatch :: "string \<Rightarrow> event list" where
  "mismatch text =
     (if find_char CHR ''|'' text \<noteq> 0 \<or> find_char CHR ''>'' text \<noteq> 0 \<or>
         find_char CHR ''<'' text \<noteq> 0 \<or> find_char CHR ''{'' text \<noteq> 0 \<or>
         find_char CHR ''}'' text \<noteq> 0
      then []
      else [Debugger])"

text \<open>
  The link and the section it points to: the link group (\<open>or ''\<close>) trimmed, then split
  at the first \<open>#\<close>, with the page title for an empty page part.
\<close>

definition resolve_link :: "string \<Rightarrow> rematch \<Rightarrow> string \<times> string" where
  "resolve_link page_title m =
     (let link = strip py_space (group_text m ''link'')
      in if CHR ''#'' \<in> set link
         then (let splitlink = split_once CHR ''#'' link
               in (if fst splitlink = [] then page_title else fst splitlink, snd splitlink))
         else (link, []))"

text \<open>
  The anchor: the anchor group, or the link when that group is \<open>None\<close> or empty; line
  feeds become spaces, and the words are joined by single spaces.
\<close>

definition resolve_anchor :: "string \<Rightarrow> rematch \<Rightarrow> string" where
  "resolve_anchor page_title m =
     (let anchor = (case group m ''anchor'' of
                      None \<Rightarrow> fst (resolve_link page_title m)
                    | Some t \<Rightarrow> if t = [] then fst (resolve_link page_title m) else t);
          anchor = replace_char (CHR 0x0A) CHR '' '' anchor
      in join CHR '' '' (split_ws [] (strip py_space anchor)))"

text \<open>
  Section attribution for one match: the scan of \<open>sections_limits[last_section_seen:]\<close>
  for the first section with \<open>begin <= total_start <= end\<close>.  The result is the
  section number, name and level given to the link, and the new \<open>last_section_seen\<close>.
\<close>

definition attribute :: "SectionLimits list \<Rightarrow> nat \<Rightarrow> int \<Rightarrow> (nat \<times> string \<times> int) \<times> nat" where
  "attribute sections_limits last_section_seen total_start =
     (case List.find (\<lambda>sec. sl_begin sec \<le> total_start \<and> total_start \<le> sl_end sec)
                     (drop last_section_seen sections_limits) of
        None \<Rightarrow> ((0, ''---~--- incipit ---~---'', 0), last_section_seen)
      | Some sec \<Rightarrow>
          ((sl_number sec, sl_name sec, sl_level sec),
           if 0 < sl_number sec then sl_number sec - 1 else 0))"

text \<open>
  The section numbers given to the successive values of \<open>total_start\<close>, with
  \<open>last_section_seen\<close> carried from one match to the next as the loop does.
\<close>

fun attribute_all :: "SectionLimits list \<Rightarrow> nat \<Rightarrow> int list \<Rightarrow> nat list" where
  "attribute_all sections_limits last_section_seen [] = []"
| "attribute_all sections_limits last_section_seen (total_start # rest) =
     (let a = attribute sections_limits last_section_seen total_start
      in fst (fst a) # attribute_all sections_limits (snd a) rest)"

text \<open>The state the loop carries from one candidate to the next.\<close>

record loop_state =
  last_section_seen :: nat
  prevmatch_start :: int
  prevmatch_end :: int

text \<open>
  The branch taken when the full grammar matches: the values of the locals when the
  branch ends.  \<open>r_wikilink\<close> is the \<open>Wikilink\<close> object, built before the affixes are
  computed; \<open>r_anchor\<close> is the local \<open>anchor\<close> after its last assignment.
\<close>

record resolved =
  r_wikilink :: Wikilink
  r_anchor :: string
  r_span :: Span
  r_state :: loop_state

definition resolve :: "string \<Rightarrow> string \<Rightarrow> SectionLimits list \<Rightarrow> loop_state \<Rightarrow> rematch \<Rightarrow> resolved" where
  "resolve page_title source sections_limits st m =
     (let link = fst (resolve_link page_title m);
          tosection = snd (resolve_link page_title m);
          anchor = resolve_anchor page_title m;
          total_start = group_start m ''total'';
          total_end = group_end m ''total'';
          a = attribute sections_limits (last_section_seen st) total_start;
          wikilink = \<lparr>link = link, tosection = tosection, anchor = anchor,
                      section_name = fst (snd (fst a)), section_level = snd (snd (fst a)),
                      section_number = fst (fst a)\<rparr>;
          anchor_prefix = strip (\<lambda>c. c = CHR ''['')
                            (py_slice source (group_start m ''total'') (group_start m ''wikilink''));
          anchor_suffix = strip (\<lambda>c. c = CHR '']'')
                            (py_slice source (group_end m ''wikilink'') (group_end m ''total''))
      in \<lparr>r_wikilink = wikilink,
          r_anchor = anchor_prefix @ anchor @ anchor_suffix,
          r_span = \<lparr>span_begin = total_start, span_end = total_end\<rparr>,
          r_state = \<lparr>last_section_seen = snd a, prevmatch_start = int (m_start m),
                     prevmatch_end = int (m_end m)\<rparr>\<rparr>)"

text \<open>
  What the branch yields: nothing when the link is empty (\<open>continue\<close>), else the
  \<open>Wikilink\<close> object with the span of the group \<open>total\<close>.
\<close>

definition resolve_match ::
  "string \<Rightarrow> string \<Rightarrow> SectionLimits list \<Rightarrow> loop_state \<Rightarrow> rematch \<Rightarrow> loop_state \<times> event list" where
  "resolve_match page_title source sections_limits st m =
     (let r = resolve page_title source sections_limits st m
      in (r_state r,
          if link (r_wikilink r) = [] then []
          else [Yielded \<lparr>data = r_wikilink r, span = r_span r\<rparr>]))"

text \<open>
  One candidate once its left boundary is known: the right boundary, the window, the
  full grammar, and one of the two branches.
\<close>

definition candidate ::
  "string \<Rightarrow> string \<Rightarrow> SectionLimits list \<Rightarrow> loop_state \<Rightarrow> rematch \<Rightarrow> int \<Rightarrow> loop_state \<times> event list" where
  "candidate page_title source sections_limits st simple_match space_prev_pos =
     (let space_post_pos = right_boundary source simple_match;
          subtext = py_slice source space_prev_pos space_post_pos
      in case re_search wikilink_re subtext of
           None \<Rightarrow> (st, mismatch (simple_match_text simple_match))
         | Some m \<Rightarrow> resolve_match page_title source sections_limits st m)"

text \<open>
  The loop over the coarse candidates.  The result is what the generator lets its
  consumer observe, in order, and the exception that ends it, if one does.  The only
  assignment to \<open>revtext\<close> is commented out in the source, so that local is unbound in
  every iteration.
\<close>

fun wikilinks_loop ::
  "string \<Rightarrow> string \<Rightarrow> SectionLimits list \<Rightarrow> loop_state \<Rightarrow> rematch list \<Rightarrow> event list \<times> error option" where
  "wikilinks_loop page_title source sections_limits st [] = ([], None)"
| "wikilinks_loop page_title source sections_limits st (simple_match # rest) =
     (case left_boundary source (prevmatch_start st) simple_match None of
        Inl e \<Rightarrow> ([], Some e)
      | Inr space_prev_pos \<Rightarrow>
          (let c = candidate page_title source sections_limits st simple_match space_prev_pos;
               r = wikilinks_loop page_title source sections_limits (fst c) rest
           in (snd c @ fst r, snd r)))"

text \<open>\<open>wikilinks(page_title, source, sections)\<close> with \<open>debug\<close> left at its default.\<close>

definition wikilinks ::
  "string \<Rightarrow> string \<Rightarrow> Section CaptureResult list \<Rightarrow> event list \<times> error option" where
  "wikilinks page_title source secs =
     wikilinks_loop page_title source (sections_limits_of secs)
       \<lparr>last_section_seen = 0, prevmatch_start = 0, prevmatch_end = 0\<rparr>
       (finditer wikilink_simple_re source)"

section \<open>A document with an over-long link\<close>

text \<open>
  A document that is one wikilink whose title has 257 characters, one more than the
  link group of \<open>wikilink_re\<close> admits.
\<close>

definition long_link :: string where
  "long_link = ''[['' @ replicate 257 CHR ''a'' @ '']]''"

section \<open>Predicates used in the proofs\<close>

text \<open>
  A list of section limits as \<open>sections\<close> produces it: numbered from 1 in order, no
  span inverted, each section ending before the next one begins.
\<close>

definition ordered_limits :: "SectionLimits list \<Rightarrow> bool" where
  "ordered_limits lims \<longleftrightarrow>
     (\<forall>k < length lims. sl_number (lims ! k) = Suc k \<and> sl_begin (lims ! k) \<le> sl_end (lims ! k)) \<and>
     (\<forall>k. Suc k < length lims \<longrightarrow> sl_end (lims ! k) < sl_begin (lims ! Suc k))"

text \<open>
  What the loop keeps true of \<open>last_section_seen\<close>: it is 0, or the index of a
  section that begins at or before the offset to attribute next.
\<close>

definition resume_ok :: "SectionLimits list \<Rightarrow> nat \<Rightarrow> int \<Rightarrow> bool" where
  "resume_ok lims l p \<longleftrightarrow> l = 0 \<or> (l < length lims \<and> sl_begin (lims ! l) \<le> p)"

text \<open>
  The right section number for an offset: 0 for an offset before every section, and
  \<open>k\<close> for an offset inside the span of the \<open>k\<close>-th section.
\<close>

definition attributed_right :: "SectionLimits list \<Rightarrow> int \<Rightarrow> nat \<Rightarrow> bool" where
  "attributed_right lims p n \<longleftrightarrow>
     ((\<forall>sec \<in> set lims. p < sl_begin sec) \<longrightarrow> n = 0) \<and>
     (\<forall>k < length lims. sl_begin (lims ! k) \<le> p \<and> p < sl_end (lims ! k) \<longrightarrow> n = Suc k)"

section \<open>Properties of the matcher\<close>

lemma match_at_start: "match_at r s i = Some m \<Longrightarrow> m_start m = i"
  by (auto simp: match_at_def split: list.splits prod.splits)

lemma finditer_from_props:
  "m \<in> set (finditer_from r s i) \<Longrightarrow> i \<le> m_start m \<and> m_start m \<le> length s"
proof (induction r s i rule: finditer_from.induct)
  case (1 r s i)
  show ?case
  proof (cases "length s < i")
    case True
    with "1.prems" show ?thesis by (simp add: finditer_from.simps)
  next
    case False
    show ?thesis
    proof (cases "match_at r s i")
      case None
      with False "1.prems" have "m \<in> set (finditer_from r s (Suc i))"
        by (simp add: finditer_from.simps [of r s i])
      with "1.IH"(1) [OF False None] show ?thesis by simp
    next
      case (Some m')
      with False "1.prems" have
        "m = m' \<or> m \<in> set (finditer_from r s (if i < m_end m' then m_end m' else Suc i))"
        by (simp add: finditer_from.simps [of r s i])
      then show ?thesis
      proof
        assume "m = m'"
        with Some False show ?thesis by (simp add: match_at_start)
      next
        assume "m \<in> set (finditer_from r s (if i < m_end m' then m_end m' else Suc i))"
        with "1.IH"(2) [OF False Some] show ?thesis by (auto split: if_splits)
      qed
    qed
  qed
qed

lemma finditer_from_after:
  "m \<in> set (finditer_from r s i) \<Longrightarrow> match_at r s (m_start m) = Some m"
proof (induction r s i rule: finditer_from.induct)
  case (1 r s i)
  show ?case
  proof (cases "length s < i")
    case True
    with "1.prems" show ?thesis by (simp add: finditer_from.simps)
  next
    case False
    show ?thesis
    proof (cases "match_at r s i")
      case None
      with False "1.prems" have "m \<in> set (finditer_from r s (Suc i))"
        by (simp add: finditer_from.simps [of r s i])
      with "1.IH"(1) [OF False None] show ?thesis by simp
    next
      case (Some m')
      with False "1.prems" have
        "m = m' \<or> m \<in> set (finditer_from r s (if i < m_end m' then m_end m' else Suc i))"
        by (simp add: finditer_from.simps [of r s i])
      then show ?thesis
      proof
        assume "m = m'"
        with Some show ?thesis by (simp add: match_at_start)
      next
        assume "m \<in> set (finditer_from r s (if i < m_end m' then m_end m' else Suc i))"
        with "1.IH"(2) [OF False Some] show ?thesis by simp
      qed
    qed
  qed
qed

lemma finditer_from_sorted:
  "sorted_wrt (\<lambda>a b. m_start a < m_start b) (finditer_from r s i)"
proof (induction r s i rule: finditer_from.induct)
  case (1 r s i)
  show ?case
  proof (cases "length s < i")
    case True
    then show ?thesis by (simp add: finditer_from.simps)
  next
    case False
    show ?thesis
    proof (cases "match_at r s i")
      case None
      with False "1.IH"(1) show ?thesis
        by (simp add: finditer_from.simps [of r s i])
    next
      case (Some m')
      let ?j = "if i < m_end m' then m_end m' else Suc i"
      have tail: "sorted_wrt (\<lambda>a b. m_start a < m_start b) (finditer_from r s ?j)"
        using "1.IH"(2) [OF False Some] .
      have "\<forall>m \<in> set (finditer_from r s ?j). m_start m' < m_start m"
      proof
        fix m assume "m \<in> set (finditer_from r s ?j)"
        then have "?j \<le> m_start m" using finditer_from_props by blast
        moreover have "m_start m' = i" using Some by (rule match_at_start)
        ultimately show "m_start m' < m_start m" by (auto split: if_splits)
      qed
      with tail Some False show ?thesis
        by (simp add: finditer_from.simps [of r s i])
    qed
  qed
qed

lemma header_at_line_start:
  assumes "match_at section_header_re s i = Some m"
  shows "i = 0 \<or> s ! (i - 1) = CHR 0x0A"
proof (rule ccontr)
  assume "\<not> ?thesis"
  then have "ms section_header_re s (i, []) = []"
    by (simp add: section_header_re_def seqs_def)
  with assms show False by (simp add: match_at_def)
qed

lemma ms_Seq_nonempty:
  "ms (Seq a b) s st \<noteq> [] \<Longrightarrow> \<exists>st' \<in> set (ms a s st). ms b s st' \<noteq> []"
  by auto

lemma ms_Seq_first: "ms (Seq a b) s st \<noteq> [] \<Longrightarrow> ms a s st \<noteq> []"
  by auto

lemma ms_Grp_nonempty: "ms (Grp n r) s st \<noteq> [] \<Longrightarrow> ms r s st \<noteq> []"
  by (cases st) auto

lemma ms_Grp_pos:
  "st' \<in> set (ms (Grp n r) s st) \<Longrightarrow> \<exists>st'' \<in> set (ms r s st). fst st' = fst st''"
  by (cases st) force

lemma ms_lit_nonempty:
  "ms (Seq (lit c) r) s st \<noteq> [] \<Longrightarrow>
     fst st < length s \<and> s ! fst st = c \<and> ms r s (Suc (fst st), snd st) \<noteq> []"
  by (cases st) (auto simp: lit_def split: if_splits)

lemma ms_Rep_pos:
  "st' \<in> set (ms (Rep mn (Some mx) greedy p) s st) \<Longrightarrow>
     \<exists>k. fst st' = fst st + k \<and> k \<le> mx \<and> k \<le> length (takeWhile p (drop (fst st) s))"
  by (cases st) (auto simp: rep_counts_def Let_def split: if_splits)

lemma ms_Opt_cases:
  "st' \<in> set (ms (Opt r) s st) \<Longrightarrow> st' = st \<or> ms r s st \<noteq> []"
  by auto


lemma wikilink_re_needs_link:
  assumes "ms wikilink_re s st \<noteq> []"
  shows "\<exists>j k. Suc j < length s \<and> s ! j = CHR ''['' \<and> s ! Suc j = CHR ''[''
           \<and> k \<le> 256 \<and> k \<le> length (takeWhile link_char (drop (Suc (Suc j)) s))
           \<and> Suc (Suc j) + k < length s
           \<and> (s ! (Suc (Suc j) + k) = CHR ''|'' \<or> s ! (Suc (Suc j) + k) = CHR '']'')"
proof -
  let ?X = "Seq (lit CHR ''|'') (Seq (Grp ''anchor'' (Rep 0 None False (\<lambda>c. c \<noteq> CHR ''[''))) Eps)"
  let ?tail = "Seq (lit CHR '']'') (Seq (lit CHR '']'') Eps)"
  let ?L = "Grp ''link'' (Rep 0 (Some 256) True link_char)"
  let ?W = "Seq (lit CHR ''['') (Seq (lit CHR ''['') (Seq ?L (Seq (Opt ?X) ?tail)))"
  let ?after = "Seq (Rep 0 None True (\<lambda>c. \<not> re_space c)) Eps"
  let ?T = "Seq (Rep 0 None False (\<lambda>c. \<not> re_space c)) (Seq (Grp ''wikilink'' ?W) ?after)"
  let ?rest = "Seq (Rep 0 (Some 1) True re_space) Eps"
  have re: "wikilink_re = Seq (Rep 0 (Some 1) True re_space) (Seq (Grp ''total'' ?T) ?rest)"
    by (simp add: wikilink_re_def seqs_def)
  from ms_Seq_nonempty [OF assms [unfolded re]]
  obtain st1 where A1: "ms (Seq (Grp ''total'' ?T) ?rest) s st1 \<noteq> []" by blast
  from ms_Grp_nonempty [OF ms_Seq_first [OF A1]]
  have A2: "ms ?T s st1 \<noteq> []" .
  from ms_Seq_nonempty [OF A2]
  obtain st3 where A3: "ms (Seq (Grp ''wikilink'' ?W) ?after) s st3 \<noteq> []" by blast
  from ms_Grp_nonempty [OF ms_Seq_first [OF A3]]
  have W: "ms ?W s st3 \<noteq> []" .
  define j where "j = fst st3"
  define g where "g = snd st3"
  from ms_lit_nonempty [OF W]
  have j1: "j < length s" and b1: "s ! j = CHR ''[''"
    and W2: "ms (Seq (lit CHR ''['') (Seq ?L (Seq (Opt ?X) ?tail))) s (Suc j, g) \<noteq> []"
    unfolding j_def g_def by blast+
  from ms_lit_nonempty [OF W2, unfolded fst_conv snd_conv]
  have j2: "Suc j < length s" and b2: "s ! Suc j = CHR ''[''"
    and W3: "ms (Seq ?L (Seq (Opt ?X) ?tail)) s (Suc (Suc j), g) \<noteq> []"
    by blast+
  from ms_Seq_nonempty [OF W3] obtain st5
    where st5: "st5 \<in> set (ms ?L s (Suc (Suc j), g))"
      and W4: "ms (Seq (Opt ?X) ?tail) s st5 \<noteq> []" by blast
  from ms_Grp_pos [OF st5] obtain st5'
    where m5: "st5' \<in> set (ms (Rep 0 (Some 256) True link_char) s (Suc (Suc j), g))"
      and e5: "fst st5 = fst st5'" by blast
  from ms_Rep_pos [OF m5, unfolded fst_conv] e5
  obtain k where k: "fst st5 = Suc (Suc j) + k" "k \<le> 256"
      "k \<le> length (takeWhile link_char (drop (Suc (Suc j)) s))"
    by metis
  from ms_Seq_nonempty [OF W4] obtain st6
    where st6: "st6 \<in> set (ms (Opt ?X) s st5)" and W5: "ms ?tail s st6 \<noteq> []" by blast
  from ms_Opt_cases [OF st6]
  have "fst st5 < length s \<and> (s ! fst st5 = CHR ''|'' \<or> s ! fst st5 = CHR '']'')"
  proof
    assume "st6 = st5"
    with ms_lit_nonempty [OF W5] show ?thesis by blast
  next
    assume "ms ?X s st5 \<noteq> []"
    from ms_lit_nonempty [OF this] show ?thesis by blast
  qed
  with k j2 b1 b2 show ?thesis by metis
qed


lemma first_match_None:
  "(\<And>i. match_at r s i = None) \<Longrightarrow> first_match r s js = None"
  by (induction js) simp_all

section \<open>The spans of the sections\<close>

lemma span_sections_loop_Cons:
  "map span (sections_loop s (m # rest)) =
     \<lparr>span_begin = int (m_start m), span_end = peek_body_end s rest\<rparr> # map span (sections_loop s rest)"
  by (simp add: Let_def)

lemma sections_loop_line_separated:
  assumes "sorted_wrt (\<lambda>a b. m_start a < m_start b) (m # rest)"
    and "\<forall>x \<in> set (m # rest). m_start x \<le> length s \<and> (m_start x = 0 \<or> s ! (m_start x - 1) = CHR 0x0A)"
  shows "line_separated s (map span (sections_loop s (m # rest))) (int (m_start m)) (len s)"
  using assms
proof (induction rest arbitrary: m)
  case Nil
  then show ?case by (simp add: peek_body_end_def len_def Let_def)
next
  case (Cons m' rest')
  have lt: "m_start m < m_start m'" using Cons.prems(1) by simp
  have le: "m_start m' \<le> length s" using Cons.prems(2) by simp
  have nl: "s ! (m_start m' - 1) = CHR 0x0A" using Cons.prems(2) lt by auto
  have tail: "line_separated s (map span (sections_loop s (m' # rest'))) (int (m_start m')) (len s)"
    using Cons.IH [of m'] Cons.prems by simp
  have n: "nat (int (m_start m') - 1) = m_start m' - 1" by simp
  obtain sp sps where sps: "map span (sections_loop s (m' # rest')) = sp # sps"
    by (simp add: Let_def)
  show ?case
    unfolding span_sections_loop_Cons [of s m] sps
    using lt le nl tail n unfolding sps
    by (simp add: peek_body_end_def len_def)
qed

text \<open>
  C1, as the specification states it: the spans of \<open>sections(D, include_preamble=True)\<close>
  partition \<open>[0, len(D))\<close>.  It fails for the document \<open>a\<close>, line feed, \<open>=b=\<close>: the
  preamble has the span \<open>(0, 1)\<close> and the section the span \<open>(2, 5)\<close>, so the line feed
  at offset 1 belongs to no span.
\<close>

theorem sections_partition_counterexample:
  "\<not> partitions (map span (sections ''a\<newline>=b='' True)) 0 (len ''a\<newline>=b='')"
  by code_simp

text \<open>
  C1, amended.  For every document whose first header does not start at offset 0, the
  spans of \<open>sections(D, include_preamble=True)\<close> are in document order and none is
  inverted, the first begins at 0 and the last ends at \<open>len(D)\<close>, and each span but the
  last ends on the line feed that precedes the next header, where the next span begins
  one character later: the spans cover \<open>[0, len(D))\<close> but for that one line feed
  between each two neighbours.
\<close>

theorem sections_preamble_line_separated:
  assumes "first_header_start D \<noteq> Some 0"
  shows "line_separated D (map span (sections D True)) 0 (len D)"
proof (cases "finditer section_header_re D")
  case Nil
  then show ?thesis by (simp add: sections_def peek_body_end_def Let_def len_def)
next
  case (Cons m rest)
  have srt: "sorted_wrt (\<lambda>a b. m_start a < m_start b) (m # rest)"
    using finditer_from_sorted [of section_header_re D 0] Cons by (simp add: finditer_def)
  have ok: "\<forall>x \<in> set (m # rest). m_start x \<le> length D \<and> (m_start x = 0 \<or> D ! (m_start x - 1) = CHR 0x0A)"
  proof
    fix x assume "x \<in> set (m # rest)"
    then have x: "x \<in> set (finditer_from section_header_re D 0)"
      using Cons by (simp add: finditer_def)
    from finditer_from_props [OF x] have "m_start x \<le> length D" by simp
    moreover from header_at_line_start [OF finditer_from_after [OF x]]
    have "m_start x = 0 \<or> D ! (m_start x - 1) = CHR 0x0A" .
    ultimately show "m_start x \<le> length D \<and> (m_start x = 0 \<or> D ! (m_start x - 1) = CHR 0x0A)" ..
  qed
  have pos: "0 < m_start m" using assms Cons by (simp add: first_header_start_def)
  have le: "m_start m \<le> length D" using ok by simp
  have nl: "D ! (m_start m - 1) = CHR 0x0A" using ok pos by auto
  have n: "nat (int (m_start m) - 1) = m_start m - 1" by simp
  have tail: "line_separated D (map span (sections_loop D (m # rest))) (int (m_start m)) (len D)"
    by (rule sections_loop_line_separated [OF srt ok])
  obtain sp sps where sps: "map span (sections_loop D (m # rest)) = sp # sps"
    by (simp add: Let_def)
  have "map span (sections D True) =
          \<lparr>span_begin = 0, span_end = int (m_start m) - 1\<rparr> # sp # sps"
    using Cons sps by (simp add: sections_def peek_body_end_def Let_def)
  then show ?thesis
    using pos le nl n tail unfolding sps by (simp add: len_def)
qed

theorem sections_preamble_line_separated_witness:
  "first_header_start ''a\<newline>=b='' \<noteq> Some 0
   \<and> line_separated ''a\<newline>=b='' (map span (sections ''a\<newline>=b='' True)) 0 (len ''a\<newline>=b='')"
proof -
  have h: "first_header_start ''a\<newline>=b='' \<noteq> Some 0" by code_simp
  from h sections_preamble_line_separated [OF h] show ?thesis by simp
qed

lemma preamble_span_when_header_first:
  assumes "first_header_start D = Some 0"
  shows "map span (take 1 (sections D True)) = [\<lparr>span_begin = 0, span_end = - 1\<rparr>]"
  using assms
  by (simp add: first_header_start_def sections_def peek_body_end_def Let_def split: list.splits)

text \<open>
  C6.  For the document \<open>=a=\<close>, whose first line is a header, the preamble that
  \<open>sections(source, include_preamble=True)\<close> yields first has the span \<open>(0, -1)\<close>, whose
  end is below its begin and below 0, and its body is the document without its last
  character.
\<close>

theorem sections_header_at_start:
  "sections ''=a='' True =
     [\<lparr>data = \<lparr>name = [], level = 0, body = ''=a'', full_body_cache = None\<rparr>,
       span = \<lparr>span_begin = 0, span_end = - 1\<rparr>\<rparr>,
      \<lparr>data = \<lparr>name = ''a'', level = 1, body = [], full_body_cache = None\<rparr>,
       span = \<lparr>span_begin = 0, span_end = 3\<rparr>\<rparr>]"
  by code_simp

section \<open>Section attribution\<close>

lemma ordered_limits_mono:
  assumes "ordered_limits lims" and "j < k" and "k < length lims"
  shows "sl_end (lims ! j) < sl_begin (lims ! k)"
  using assms(2,3)
proof (induction k)
  case 0
  then show ?case by simp
next
  case (Suc k)
  have step: "sl_end (lims ! k) < sl_begin (lims ! Suc k)"
    using assms(1) Suc.prems(2) by (simp add: ordered_limits_def)
  show ?case
  proof (cases "j = k")
    case True
    with step show ?thesis by simp
  next
    case False
    with Suc have "sl_end (lims ! j) < sl_begin (lims ! k)" by simp
    moreover have "sl_begin (lims ! k) \<le> sl_end (lims ! k)"
      using assms(1) Suc.prems(2) by (simp add: ordered_limits_def)
    ultimately show ?thesis using step by linarith
  qed
qed

lemma attribute_found:
  assumes ord: "ordered_limits lims" and k: "k < length lims" and l: "l \<le> k"
    and b: "sl_begin (lims ! k) \<le> p" and e: "p \<le> sl_end (lims ! k)"
  shows "attribute lims l p = ((Suc k, sl_name (lims ! k), sl_level (lims ! k)), k)"
proof -
  let ?P = "\<lambda>sec. sl_begin sec \<le> p \<and> p \<le> sl_end sec"
  have "List.find ?P (drop l lims) = Some (lims ! k)"
  proof (subst find_Some_iff, intro exI [of _ "k - l"] conjI allI impI)
    show "k - l < length (drop l lims)" using k l by simp
    show "sl_begin (drop l lims ! (k - l)) \<le> p" using k l b by simp
    show "p \<le> sl_end (drop l lims ! (k - l))" using k l e by simp
    show "lims ! k = drop l lims ! (k - l)" using k l by simp
  next
    fix j assume j: "j < k - l"
    then have "sl_end (lims ! (l + j)) < sl_begin (lims ! k)"
      using ordered_limits_mono [OF ord _ k, of "l + j"] by simp
    with b have "\<not> p \<le> sl_end (lims ! (l + j))" by simp
    moreover have "drop l lims ! j = lims ! (l + j)" using j k by simp
    ultimately show "\<not> (sl_begin (drop l lims ! j) \<le> p \<and> p \<le> sl_end (drop l lims ! j))"
      by simp
  qed
  moreover have "sl_number (lims ! k) = Suc k"
    using ord k by (simp add: ordered_limits_def)
  ultimately show ?thesis by (simp add: attribute_def)
qed

lemma attribute_before_all:
  assumes "\<forall>sec \<in> set lims. p < sl_begin sec"
  shows "fst (fst (attribute lims l p)) = 0"
proof -
  have "List.find (\<lambda>sec. sl_begin sec \<le> p \<and> p \<le> sl_end sec) (drop l lims) = None"
  proof (subst find_None_iff, intro notI)
    assume "\<exists>x. x \<in> set (drop l lims) \<and> sl_begin x \<le> p \<and> p \<le> sl_end x"
    then obtain x where "x \<in> set (drop l lims)" and b: "sl_begin x \<le> p" by blast
    then have "x \<in> set lims" by (simp add: in_set_dropD)
    with assms have "p < sl_begin x" by blast
    with b show False by simp
  qed
  then show ?thesis by (simp add: attribute_def)
qed

lemma resume_ok_le:
  assumes ord: "ordered_limits lims" and r: "resume_ok lims l p" and k: "k < length lims"
    and e: "p \<le> sl_end (lims ! k)"
  shows "l \<le> k"
proof (rule ccontr)
  assume "\<not> l \<le> k"
  then have kl: "k < l" by simp
  with r have l: "l < length lims" and b: "sl_begin (lims ! l) \<le> p"
    by (auto simp: resume_ok_def)
  from ordered_limits_mono [OF ord kl l] b e show False by simp
qed

lemma resume_ok_step:
  assumes ord: "ordered_limits lims" and r: "resume_ok lims l p" and pq: "p \<le> q"
  shows "resume_ok lims (snd (attribute lims l p)) q"
proof (cases "List.find (\<lambda>sec. sl_begin sec \<le> p \<and> p \<le> sl_end sec) (drop l lims)")
  case None
  then have "snd (attribute lims l p) = l" by (simp add: attribute_def)
  with r pq show ?thesis by (auto simp: resume_ok_def)
next
  case (Some sec)
  then obtain i where i: "i < length (drop l lims)" and sec: "sec = drop l lims ! i"
    and b: "sl_begin sec \<le> p"
    by (auto simp: find_Some_iff)
  have k: "l + i < length lims" using i by simp
  have sec': "sec = lims ! (l + i)" using sec i by simp
  have "sl_number sec = Suc (l + i)" using ord k sec' by (simp add: ordered_limits_def)
  with Some have "snd (attribute lims l p) = l + i" by (simp add: attribute_def)
  with k b pq sec' show ?thesis by (simp add: resume_ok_def)
qed

lemma attribute_right:
  assumes ord: "ordered_limits lims" and r: "resume_ok lims l p"
  shows "attributed_right lims p (fst (fst (attribute lims l p)))"
  unfolding attributed_right_def
proof (intro conjI impI allI)
  assume "\<forall>sec \<in> set lims. p < sl_begin sec"
  then show "fst (fst (attribute lims l p)) = 0" by (rule attribute_before_all)
next
  fix k assume k: "k < length lims" and in_k: "sl_begin (lims ! k) \<le> p \<and> p < sl_end (lims ! k)"
  then have e: "p \<le> sl_end (lims ! k)" by simp
  have "l \<le> k" by (rule resume_ok_le [OF ord r k e])
  from attribute_found [OF ord k this _ e] in_k
  show "fst (fst (attribute lims l p)) = Suc k" by simp
qed

lemma attribute_all_right:
  assumes ord: "ordered_limits lims"
  shows "sorted ps \<Longrightarrow> (ps \<noteq> [] \<Longrightarrow> resume_ok lims l (hd ps)) \<Longrightarrow>
         list_all2 (attributed_right lims) ps (attribute_all lims l ps)"
proof (induction ps arbitrary: l)
  case Nil
  then show ?case by simp
next
  case (Cons p ps)
  have r: "resume_ok lims l p" using Cons.prems(2) by simp
  have here: "attributed_right lims p (fst (fst (attribute lims l p)))"
    by (rule attribute_right [OF ord r])
  have "list_all2 (attributed_right lims) ps (attribute_all lims (snd (attribute lims l p)) ps)"
  proof (rule Cons.IH)
    show "sorted ps" using Cons.prems(1) by simp
    assume "ps \<noteq> []"
    then have "p \<le> hd ps" using Cons.prems(1) by (cases ps) auto
    then show "resume_ok lims (snd (attribute lims l p)) (hd ps)"
      by (rule resume_ok_step [OF ord r])
  qed
  with here show ?case by (simp add: Let_def)
qed

lemma length_sections_loop: "length (sections_loop s hs) = length hs"
  by (induction hs) (simp_all add: Let_def)

lemma span_sections_loop_nth:
  "k < length hs \<Longrightarrow>
   span (sections_loop s hs ! k) =
     \<lparr>span_begin = int (m_start (hs ! k)), span_end = peek_body_end s (drop (Suc k) hs)\<rparr>"
proof (induction hs arbitrary: k)
  case Nil
  then show ?case by simp
next
  case (Cons m hs)
  then show ?case by (cases k) (simp_all add: Let_def)
qed

lemma sections_limits_nth:
  assumes "k < length secs"
  shows "sections_limits_of secs ! k =
           \<lparr>sl_name = name (data (secs ! k)), sl_level = level (data (secs ! k)), sl_number = Suc k,
            sl_begin = span_begin (span (secs ! k)), sl_end = span_end (span (secs ! k))\<rparr>"
  using assms by (simp add: sections_limits_of_def del: upt_Suc)

lemma length_sections_limits: "length (sections_limits_of secs) = length secs"
  by (simp add: sections_limits_of_def del: upt_Suc)

lemma ordered_sections: "ordered_limits (sections_limits_of (sections D False))"
proof -
  let ?ms = "finditer section_header_re D"
  have secs: "sections D False = sections_loop D ?ms" by (simp add: sections_def)
  have srt: "sorted_wrt (\<lambda>a b. m_start a < m_start b) ?ms"
    using finditer_from_sorted [of section_header_re D 0] by (simp add: finditer_def)
  have bound: "\<And>k. k < length ?ms \<Longrightarrow> m_start (?ms ! k) \<le> length D"
    using finditer_from_props [of _ section_header_re D 0] by (simp add: finditer_def)
  have sp: "\<And>k. k < length ?ms \<Longrightarrow>
      sl_begin (sections_limits_of (sections D False) ! k) = int (m_start (?ms ! k)) \<and>
      sl_end (sections_limits_of (sections D False) ! k) = peek_body_end D (drop (Suc k) ?ms) \<and>
      sl_number (sections_limits_of (sections D False) ! k) = Suc k"
    by (simp add: secs sections_limits_nth length_sections_loop span_sections_loop_nth)
  have pk: "\<And>k. k < length ?ms \<Longrightarrow>
      peek_body_end D (drop (Suc k) ?ms) =
        (if Suc k < length ?ms then int (m_start (?ms ! Suc k)) - 1 else len D)"
  proof -
    fix k assume "k < length ?ms"
    show "peek_body_end D (drop (Suc k) ?ms) =
        (if Suc k < length ?ms then int (m_start (?ms ! Suc k)) - 1 else len D)"
    proof (cases "Suc k < length ?ms")
      case True
      then have "drop (Suc k) ?ms = ?ms ! Suc k # drop (Suc (Suc k)) ?ms"
        by (simp add: Cons_nth_drop_Suc)
      with True show ?thesis by (simp add: peek_body_end_def)
    next
      case False
      then show ?thesis by (simp add: peek_body_end_def)
    qed
  qed
  have len: "length (sections_limits_of (sections D False)) = length ?ms"
    by (simp add: secs length_sections_limits length_sections_loop)
  show ?thesis
    unfolding ordered_limits_def len
  proof (intro conjI allI impI)
    fix k assume k: "k < length ?ms"
    show "sl_number (sections_limits_of (sections D False) ! k) = Suc k"
      using sp [OF k] by simp
    show "sl_begin (sections_limits_of (sections D False) ! k)
            \<le> sl_end (sections_limits_of (sections D False) ! k)"
    proof (cases "Suc k < length ?ms")
      case True
      then have "m_start (?ms ! k) < m_start (?ms ! Suc k)"
        using srt by (simp add: sorted_wrt_iff_nth_less)
      with True show ?thesis using sp [OF k] pk [OF k] by simp
    next
      case False
      then show ?thesis using sp [OF k] pk [OF k] bound [OF k] by (simp add: len_def)
    qed
  next
    fix k assume k: "Suc k < length ?ms"
    then have k': "k < length ?ms" by simp
    show "sl_end (sections_limits_of (sections D False) ! k)
            < sl_begin (sections_limits_of (sections D False) ! Suc k)"
      using sp [OF k'] sp [OF k] pk [OF k'] k by simp
  qed
qed

text \<open>
  The scan is right on the offsets it is given.  Let the section limits be those of
  \<open>sections(D)\<close>, and let the offsets \<open>ps\<close> be attributed one after the other, in
  non-decreasing order, with \<open>last_section_seen\<close> starting at 0 and carried along as
  the loop does.  Then an offset that precedes the start of every section is given the
  number 0, and an offset inside the span of the \<open>k\<close>-th section (counted from 1) is
  given the number \<open>k\<close>, whatever was attributed before it.
\<close>

lemma attribution_monotonic_scan:
  assumes "sorted ps" and "i < length ps"
  shows "((\<forall>sec \<in> set (sections_limits_of (sections D False)). ps ! i < sl_begin sec) \<longrightarrow>
            attribute_all (sections_limits_of (sections D False)) 0 ps ! i = 0) \<and>
         (\<forall>k < length (sections_limits_of (sections D False)).
            sl_begin (sections_limits_of (sections D False) ! k) \<le> ps ! i \<and>
            ps ! i < sl_end (sections_limits_of (sections D False) ! k) \<longrightarrow>
            attribute_all (sections_limits_of (sections D False)) 0 ps ! i = Suc k)"
proof -
  let ?lims = "sections_limits_of (sections D False)"
  have "list_all2 (attributed_right ?lims) ps (attribute_all ?lims 0 ps)"
    by (rule attribute_all_right [OF ordered_sections assms(1)]) (simp add: resume_ok_def)
  then have "attributed_right ?lims (ps ! i) (attribute_all ?lims 0 ps ! i)"
    using assms(2) by (rule list_all2_nthD)
  then show ?thesis by (simp add: attributed_right_def)
qed

section \<open>The window, the resolver and the grammar mismatch\<close>

lemma left_boundary_unbound:
  "left_boundary source p simple_match None = Inl UnboundLocalError"
  by (simp add: left_boundary_def read_local_def del_local_def split: option.splits)

text \<open>
  C2.  The computation of the left boundary does not complete: for every source with
  at least one coarse candidate, \<open>wikilinks\<close> yields nothing and ends with
  \<open>UnboundLocalError\<close> at the first candidate, because the local \<open>revtext\<close> is read
  (when a whitespace character precedes the candidate) or deleted (when none does)
  without ever being assigned.
\<close>

theorem wikilinks_raises_on_first_candidate:
  assumes "finditer wikilink_simple_re source \<noteq> []"
  shows "wikilinks page_title source secs = ([], Some UnboundLocalError)"
proof -
  from assms obtain sm rest where "finditer wikilink_simple_re source = sm # rest"
    by (cases "finditer wikilink_simple_re source") auto
  then show ?thesis by (simp add: wikilinks_def left_boundary_unbound)
qed

theorem wikilinks_raises_on_first_candidate_witness:
  "finditer wikilink_simple_re ''a [[b]]'' \<noteq> []
   \<and> wikilinks ''T'' ''a [[b]]'' (sections ''a [[b]]'' False) = ([], Some UnboundLocalError)"
proof -
  have h: "finditer wikilink_simple_re ''a [[b]]'' \<noteq> []" by code_simp
  from h wikilinks_raises_on_first_candidate [OF h] show ?thesis by simp
qed

lemma yielded_anchor_without_affix:
  assumes "snd (resolve_match page_title source sections_limits st m) = [Yielded c]"
  shows "anchor (data c) = resolve_anchor page_title m"
  using assms by (auto simp: resolve_match_def resolve_def Let_def split: if_splits)

text \<open>
  C3.  For the window \<open>[[apple]]s\<close> the full grammar matches with the suffix \<open>s\<close>
  inside the group \<open>total\<close>, and the branch for a match yields a \<open>Wikilink\<close> whose
  link is \<open>apple\<close> and whose anchor is \<open>apple\<close>, not \<open>apples\<close>: the affixes are
  joined to the local variable \<open>anchor\<close>, whose value is \<open>apples\<close> when the branch
  ends, only after the \<open>Wikilink\<close> object has been built from it.
\<close>

theorem resolve_apple_affix:
  "re_search wikilink_re ''[[apple]]s'' =
     Some \<lparr>m_string = ''[[apple]]s'', m_start = 0, m_end = 10,
           m_groups = [(''total'', 0, 10), (''wikilink'', 0, 9), (''link'', 2, 7)]\<rparr>
   \<and> snd (resolve_match ''T'' ''[[apple]]s'' []
            \<lparr>last_section_seen = 0, prevmatch_start = 0, prevmatch_end = 0\<rparr>
            \<lparr>m_string = ''[[apple]]s'', m_start = 0, m_end = 10,
             m_groups = [(''total'', 0, 10), (''wikilink'', 0, 9), (''link'', 2, 7)]\<rparr>) =
       [Yielded \<lparr>data = \<lparr>link = ''apple'', tosection = [], anchor = ''apple'',
                         section_name = ''---~--- incipit ---~---'', section_level = 0,
                         section_number = 0\<rparr>,
                 span = \<lparr>span_begin = 0, span_end = 10\<rparr>\<rparr>]
   \<and> r_anchor (resolve ''T'' ''[[apple]]s'' []
            \<lparr>last_section_seen = 0, prevmatch_start = 0, prevmatch_end = 0\<rparr>
            \<lparr>m_string = ''[[apple]]s'', m_start = 0, m_end = 10,
             m_groups = [(''total'', 0, 10), (''wikilink'', 0, 9), (''link'', 2, 7)]\<rparr>) = ''apples''"
  by code_simp

lemma wikilinks_yields_nothing: "fst (wikilinks page_title source secs) = []"
proof -
  have "fst (wikilinks_loop page_title source lims st cands) = []" for lims st cands
    by (cases cands) (simp_all add: left_boundary_unbound)
  then show ?thesis by (simp add: wikilinks_def)
qed


text \<open>
  The spans of the results.  By the lemma above \<open>wikilinks\<close> yields no result for any
  input, so no execution shows what span a result carries.  The lines that build the
  span, if they ran, would take it from the match on the window: for the source
  \<open>ab [[c]]\<close> the coarse scanner finds one candidate, at \<open>(3, 8)\<close>; with \<open>revtext\<close>
  bound (to the reversed text before the candidate, as the commented-out assignment
  would bind it) the left boundary is 2, the window is the source from offset 2, and
  the group \<open>total\<close> of the grammar match is \<open>[[c]]\<close> at the offsets \<open>(1, 6)\<close> of the
  window; the span built is \<open>(1, 6)\<close>, and the source between these offsets is
  \<open>b [[c\<close>.
\<close>

lemma span_relative_to_window:
  "finditer wikilink_simple_re ''ab [[c]]'' =
     [\<lparr>m_string = ''ab [[c]]'', m_start = 3, m_end = 8, m_groups = []\<rparr>]
   \<and> left_boundary ''ab [[c]]'' 0
        \<lparr>m_string = ''ab [[c]]'', m_start = 3, m_end = 8, m_groups = []\<rparr> (Some '' ba'') = Inr 2
   \<and> re_search wikilink_re (py_slice ''ab [[c]]'' 2 8) =
       Some \<lparr>m_string = '' [[c]]'', m_start = 0, m_end = 6,
             m_groups = [(''total'', 1, 6), (''wikilink'', 1, 6), (''link'', 3, 4)]\<rparr>
   \<and> group \<lparr>m_string = '' [[c]]'', m_start = 0, m_end = 6,
             m_groups = [(''total'', 1, 6), (''wikilink'', 1, 6), (''link'', 3, 4)]\<rparr> ''total''
       = Some ''[[c]]''
   \<and> snd (candidate ''T'' ''ab [[c]]'' []
            \<lparr>last_section_seen = 0, prevmatch_start = 0, prevmatch_end = 0\<rparr>
            \<lparr>m_string = ''ab [[c]]'', m_start = 3, m_end = 8, m_groups = []\<rparr> 2) =
       [Yielded \<lparr>data = \<lparr>link = ''c'', tosection = [], anchor = ''c'',
                         section_name = ''---~--- incipit ---~---'', section_level = 0,
                         section_number = 0\<rparr>,
                 span = \<lparr>span_begin = 1, span_end = 6\<rparr>\<rparr>]
   \<and> py_slice ''ab [[c]]'' 1 6 = ''b [[c''"
  by code_simp

lemma length_long_link: "length long_link = 261"
  by (simp add: long_link_def)

lemma long_link_nth:
  "n < 261 \<Longrightarrow>
   long_link ! n = (if n < 2 then CHR ''['' else if n < 259 then CHR ''a'' else CHR '']'')"
  by (auto simp: long_link_def nth_append nth_Cons')

lemma long_link_no_match: "ms wikilink_re long_link st = []"
proof (rule ccontr)
  assume "ms wikilink_re long_link st \<noteq> []"
  from wikilink_re_needs_link [OF this]
  obtain j k where j: "Suc j < length long_link" and b2: "long_link ! Suc j = CHR ''[''"
    and k: "k \<le> 256" and kl: "Suc (Suc j) + k < length long_link"
    and c: "long_link ! (Suc (Suc j) + k) = CHR ''|'' \<or> long_link ! (Suc (Suc j) + k) = CHR '']''"
    by blast
  from j have "Suc j < 261" by (simp add: length_long_link)
  from long_link_nth [OF this] b2 have j0: "j = 0" by (simp split: if_splits)
  from k j0 have lt: "Suc (Suc j) + k < 261" by simp
  from long_link_nth [OF lt] j0 k have "long_link ! (Suc (Suc j) + k) = CHR ''a''" by simp
  with c show False by simp
qed

lemma long_link_search: "re_search wikilink_re long_link = None"
  unfolding re_search_def
  by (rule first_match_None) (simp add: match_at_def long_link_no_match)

lemma mismatch_never_debugger: "mismatch t = []"
proof (cases t)
  case Nil
  then show ?thesis by (simp add: mismatch_def)
next
  case (Cons c cs)
  then show ?thesis by (auto simp: mismatch_def Let_def split: if_splits)
qed

lemma long_link_text:
  "simple_match_text \<lparr>m_string = long_link, m_start = 0, m_end = 261, m_groups = []\<rparr> =
     replicate 257 CHR ''a''"
  by (simp add: long_link_def simple_match_text_def group0_def strip_def lstrip_def rstrip_def
      py_space_def re_space_def)

text \<open>
  C5.  For the document \<open>long_link\<close> the coarse scanner finds one candidate, the
  whole document; the left boundary (with \<open>revtext\<close> bound) is 0, the window is the
  whole document, and the full grammar does not match it.  The raw bracket contents
  are 257 letters \<open>a\<close>, so none of the characters \<open>| < > { }\<close> occurs in them, and the
  candidate is skipped with nothing yielded and the debugger not entered.
\<close>

theorem long_link_skipped_silently:
  "finditer wikilink_simple_re long_link =
     [\<lparr>m_string = long_link, m_start = 0, m_end = 261, m_groups = []\<rparr>]
   \<and> left_boundary long_link 0
        \<lparr>m_string = long_link, m_start = 0, m_end = 261, m_groups = []\<rparr> (Some []) = Inr 0
   \<and> re_search wikilink_re (py_slice long_link 0 261) = None
   \<and> simple_match_text \<lparr>m_string = long_link, m_start = 0, m_end = 261, m_groups = []\<rparr> =
       replicate 257 CHR ''a''
   \<and> snd (candidate ''T'' long_link []
            \<lparr>last_section_seen = 0, prevmatch_start = 0, prevmatch_end = 0\<rparr>
            \<lparr>m_string = long_link, m_start = 0, m_end = 261, m_groups = []\<rparr> 0) = []"
proof -
  let ?SM = "\<lparr>m_string = long_link, m_start = 0, m_end = 261, m_groups = []\<rparr>"
  have f: "finditer wikilink_simple_re long_link = [?SM]" by code_simp
  have l: "left_boundary long_link 0 ?SM (Some []) = Inr 0"
    by (simp add: left_boundary_def py_slice_def slice_bound_def len_def read_local_def
        del_local_def reverse_position_def)
  have w: "py_slice long_link 0 261 = long_link"
    by (simp add: py_slice_def slice_bound_def len_def length_long_link)
  have r: "right_boundary long_link ?SM = 261"
    by (simp add: right_boundary_def py_slice_def slice_bound_def len_def length_long_link)
  have c: "snd (candidate ''T'' long_link [] \<lparr>last_section_seen = 0, prevmatch_start = 0, prevmatch_end = 0\<rparr> ?SM 0) = []"
    by (simp add: candidate_def r w long_link_search mismatch_never_debugger)
  from f l c show ?thesis by (simp only: w long_link_search long_link_text simp_thms)
qed







section \<open>The memoised full body\<close>

text \<open>
  C10.  For a section built by the constructor with level at least 1, \<open>full_body\<close> is
  the header line (\<open>level\<close> equals signs, the name, \<open>level\<close> equals signs, a line
  feed) followed by the body; the access stores that string in the cache and changes
  nothing else; a second access returns the same string and leaves the section as it
  is; and the second access returns the stored string, not a new computation: it
  returns the same string even if the body has been replaced in between.
\<close>

theorem full_body_computed_once_and_cached:
  assumes "1 \<le> l"
  shows "fst (full_body (Section_init n l b)) =
           replicate (nat l) CHR ''='' @ n @ replicate (nat l) CHR ''='' @ [CHR 0x0A] @ b
         \<and> snd (full_body (Section_init n l b)) =
             (Section_init n l b)\<lparr>full_body_cache :=
                Some (replicate (nat l) CHR ''='' @ n @ replicate (nat l) CHR ''='' @ [CHR 0x0A] @ b)\<rparr>
         \<and> fst (full_body (snd (full_body (Section_init n l b)))) =
             fst (full_body (Section_init n l b))
         \<and> snd (full_body (snd (full_body (Section_init n l b)))) =
             snd (full_body (Section_init n l b))
         \<and> fst (full_body ((snd (full_body (Section_init n l b)))\<lparr>body := b'\<rparr>)) =
             fst (full_body (Section_init n l b))"
  using assms by (simp add: full_body_def Section_init_def is_preamble_def Let_def)

theorem full_body_computed_once_and_cached_witness:
  "(1::int) \<le> 2
   \<and> fst (full_body (Section_init ''History'' 2 ''text'')) = ''==History==\<newline>text''
   \<and> full_body_cache (snd (full_body (Section_init ''History'' 2 ''text''))) =
       Some ''==History==\<newline>text''
   \<and> fst (full_body (snd (full_body (Section_init ''History'' 2 ''text'')))) =
       ''==History==\<newline>text''
   \<and> fst (full_body ((snd (full_body (Section_init ''History'' 2 ''text'')))\<lparr>body := ''other''\<rparr>)) =
       ''==History==\<newline>text''"
proof -
  have h: "(1::int) \<le> 2" by simp
  have w: "replicate (nat 2) CHR ''='' @ ''History'' @ replicate (nat 2) CHR ''='' @ [CHR 0x0A] @ ''text''
            = ''==History==\<newline>text''"
    by (simp add: numeral_2_eq_2)
  note t = full_body_computed_once_and_cached [OF h, of "''History''" "''text''" "''other''", unfolded w]
  from t have a: "fst (full_body (Section_init ''History'' 2 ''text'')) = ''==History==\<newline>text''"
    by (rule conjunct1)
  from t have "snd (full_body (Section_init ''History'' 2 ''text'')) =
      (Section_init ''History'' 2 ''text'')\<lparr>full_body_cache := Some ''==History==\<newline>text''\<rparr>"
    by blast
  then have b: "full_body_cache (snd (full_body (Section_init ''History'' 2 ''text''))) =
      Some ''==History==\<newline>text''"
    by simp
  from t a have c: "fst (full_body (snd (full_body (Section_init ''History'' 2 ''text'')))) =
      ''==History==\<newline>text''"
    by metis
  from t a have d: "fst (full_body ((snd (full_body (Section_init ''History'' 2 ''text'')))\<lparr>body := ''other''\<rparr>)) =
      ''==History==\<newline>text''"
    by metis
  from h a b c d show ?thesis by blast
qed

end
